theory Spec2Isabelle
  imports Complex_Main
begin

section \<open>Nearest-index lookup of \<^verbatim>\<open>astrodynamics/utils/helper.py\<close>\<close>

text \<open>
  The two functions \<^verbatim>\<open>find_nearest_index\<close> and \<^verbatim>\<open>get_neighbors_index\<close> work on a
  one-dimensional numeric array. They are modelled twice.

  First on exact numbers: the values are real numbers, as the data model of the
  specification has them, positions are natural numbers, and the window arithmetic of
  \<^verbatim>\<open>get_neighbors_index\<close> is done on \<open>int\<close> (\<^verbatim>\<open>num_neighbors\<close> may be zero or negative, and
  \<^verbatim>\<open>//\<close> is floor division, which is \<open>div\<close> on \<open>int\<close>). This is what the code computes
  wherever its arithmetic is exact: in the branches of \<^verbatim>\<open>find_nearest_index\<close> that only
  compare values, and in a window that lies within the array.

  Then with the arithmetic numpy does: the two distances of \<^verbatim>\<open>find_nearest_index\<close> are
  computed in the dtype of the array, where a difference can wrap around or be rounded, and
  the window is computed on the \<^verbatim>\<open>np.int64\<close> scalar \<^verbatim>\<open>idx\<close> and Python integers, where a
  Python integer outside the range of \<^verbatim>\<open>int64\<close> raises \<^verbatim>\<open>OverflowError\<close> and a result
  outside it wraps around.
\<close>

subsection \<open>Errors and subscripts\<close>

datatype error = IndexError | OverflowError

definition err_bind :: "error + 'a \<Rightarrow> ('a \<Rightarrow> error + 'b) \<Rightarrow> error + 'b" where
  "err_bind m f = (case m of Inl e \<Rightarrow> Inl e | Inr x \<Rightarrow> f x)"

text \<open>
  \<^verbatim>\<open>xs[i]\<close>: a negative subscript counts from the end, and a subscript outside
  \<^verbatim>\<open>-len(xs) .. len(xs) - 1\<close> raises.
\<close>

definition getitem :: "'a list \<Rightarrow> int \<Rightarrow> error + 'a" where
  "getitem xs i =
     (if 0 \<le> i \<and> i < int (length xs) then Inr (xs ! nat i)
      else if i < 0 \<and> - int (length xs) \<le> i then Inr (xs ! nat (int (length xs) + i))
      else Inl IndexError)"

subsection \<open>The two library calls\<close>

text \<open>
  \<^verbatim>\<open>np.argsort(array)\<close> returns a permutation of the positions of \<^verbatim>\<open>array\<close> that puts
  the values in ascending order. Its default sort is not stable, so the order it gives to
  equal values is not fixed. The model of \<^verbatim>\<open>find_nearest_index\<close> therefore takes the
  argsort as a parameter, and \<open>is_argsort\<close> is all that is assumed of its result.
\<close>

definition is_argsort :: "'a::linorder list \<Rightarrow> nat list \<Rightarrow> bool" where
  "is_argsort array p \<longleftrightarrow>
     length p = length array \<and> distinct p \<and> list_all (\<lambda>i. i < length array) p \<and>
     sorted (map (\<lambda>i. array ! i) p)"

text \<open>One such argsort, the stable one, for running the model on concrete arrays.\<close>

definition np_argsort :: "'a::linorder list \<Rightarrow> nat list" where
  "np_argsort array = map snd (sort_key fst (zip array [0..<length array]))"

text \<open>
  \<^verbatim>\<open>np.searchsorted(a, v, side='left')\<close> is a binary search for the leftmost insertion
  point of \<open>v\<close> in the sorted array \<open>a\<close>: it halves the interval \<open>[lo, hi)\<close> and keeps the
  half that holds the first element not below \<open>v\<close>.
\<close>

function bsearch_left :: "'a::linorder list \<Rightarrow> 'a \<Rightarrow> nat \<Rightarrow> nat \<Rightarrow> nat" where
  "bsearch_left a v lo hi =
     (if lo < hi then
        (let mid = lo + (hi - lo) div 2
         in if a ! mid < v then bsearch_left a v (mid + 1) hi
            else bsearch_left a v lo mid)
      else lo)"
  by pat_completeness auto
termination
  by (relation "measure (\<lambda>(a, v, lo, hi). hi - lo)") auto

declare bsearch_left.simps [simp del]

definition searchsorted_left :: "'a::linorder list \<Rightarrow> 'a \<Rightarrow> nat" where
  "searchsorted_left a v = bsearch_left a v 0 (length a)"

subsection \<open>\<^verbatim>\<open>find_nearest_index\<close> and \<^verbatim>\<open>get_neighbors_index\<close>\<close>

text \<open>
  \<^verbatim>\<open>array[idx_sorted]\<close> gathers the values at the positions \<open>idx_sorted\<close> into a new
  array; the positions an argsort returns are all in range.
\<close>

definition find_nearest_index ::
  "(real list \<Rightarrow> nat list) \<Rightarrow> real list \<Rightarrow> real \<Rightarrow> error + nat" where
  "find_nearest_index argsort array value =
     (let idx_sorted = argsort array;
          sorted_array = map (\<lambda>i. array ! i) idx_sorted;
          idx = searchsorted_left sorted_array value
      in if idx \<ge> length array then getitem idx_sorted (int (length array) - 1)
         else if idx = 0 then getitem idx_sorted 0
         else
           err_bind (getitem sorted_array (int idx - 1)) (\<lambda>v_before.
           err_bind (getitem sorted_array (int idx)) (\<lambda>v_at.
             if \<bar>value - v_before\<bar> < \<bar>value - v_at\<bar>
             then getitem idx_sorted (int idx - 1)
             else getitem idx_sorted (int idx))))"

text \<open>
  The two locals of \<^verbatim>\<open>find_nearest_index\<close> that the statements below speak of:
  \<^verbatim>\<open>sorted_array\<close> and the insertion point \<^verbatim>\<open>idx\<close>.
\<close>

definition sorted_values :: "('a list \<Rightarrow> nat list) \<Rightarrow> 'a list \<Rightarrow> 'a list" where
  "sorted_values argsort array = map (\<lambda>i. array ! i) (argsort array)"

definition insertion_point ::
  "('a list \<Rightarrow> nat list) \<Rightarrow> 'a::linorder list \<Rightarrow> 'a \<Rightarrow> nat" where
  "insertion_point argsort array value =
     searchsorted_left (sorted_values argsort array) value"

text \<open>\<^verbatim>\<open>slice(start, end)\<close>: the half-open range of positions \<open>[start, end)\<close>.\<close>

datatype slice = Slice (slice_start: int) (slice_stop: int)

definition get_neighbors_index ::
  "(real list \<Rightarrow> nat list) \<Rightarrow> real list \<Rightarrow> real \<Rightarrow> int \<Rightarrow> error + slice" where
  "get_neighbors_index argsort array central num_neighbors =
     err_bind (find_nearest_index argsort array central) (\<lambda>idx.
       let start0 = max 0 (int idx - (num_neighbors - 1) div 2);
           stop = min (int (length array)) (start0 + num_neighbors);
           start = stop - num_neighbors
       in Inr (Slice start stop))"

text \<open>
  The window recipe in the words of the specification, from the nearest position \<open>idx\<close>:
  \<^verbatim>\<open>start = max(0, idx - (num_neighbors - 1) // 2)\<close>,
  \<^verbatim>\<open>end = min(len(array), start + num_neighbors)\<close>, \<^verbatim>\<open>start = end - num_neighbors\<close>.
\<close>

definition window_recipe :: "nat \<Rightarrow> nat \<Rightarrow> int \<Rightarrow> slice" where
  "window_recipe len idx num_neighbors =
     Slice (min (int len) (max 0 (int idx - (num_neighbors - 1) div 2) + num_neighbors)
              - num_neighbors)
           (min (int len) (max 0 (int idx - (num_neighbors - 1) div 2) + num_neighbors))"

subsection \<open>\<^verbatim>\<open>find_nearest_index\<close> on a store of arrays\<close>

text \<open>
  To speak of the caller's array object, the same function once more, on a store: a
  reference is a position in the list of allocated arrays, \<^verbatim>\<open>np.argsort\<close>, the gather
  \<^verbatim>\<open>array[idx_sorted]\<close> and \<^verbatim>\<open>np.array\<close> each allocate a new array, and every read goes
  through the store. The function returns the store it leaves behind with its result.
\<close>

datatype ndarray = FloatArray (floats: "real list") | IntpArray (positions: "nat list")

type_synonym heap = "ndarray list"

definition alloc :: "heap \<Rightarrow> ndarray \<Rightarrow> heap \<times> nat" where
  "alloc h ob = (h @ [ob], length h)"

definition find_nearest_index_heap ::
  "(real list \<Rightarrow> nat list) \<Rightarrow> heap \<Rightarrow> nat \<Rightarrow> real \<Rightarrow> heap \<times> (error + nat)" where
  "find_nearest_index_heap argsort h array value =
     (let (h1, idx_sorted) = alloc h (IntpArray (argsort (floats (h ! array))));
          (h2, gathered) =
             alloc h1 (FloatArray (map (\<lambda>i. floats (h1 ! array) ! i)
                                       (positions (h1 ! idx_sorted))));
          (h3, sorted_array) = alloc h2 (FloatArray (floats (h2 ! gathered)));
          idx = searchsorted_left (floats (h3 ! sorted_array)) value;
          n = length (floats (h3 ! array))
      in (h3,
          if idx \<ge> n then getitem (positions (h3 ! idx_sorted)) (int n - 1)
          else if idx = 0 then getitem (positions (h3 ! idx_sorted)) 0
          else
            err_bind (getitem (floats (h3 ! sorted_array)) (int idx - 1)) (\<lambda>v_before.
            err_bind (getitem (floats (h3 ! sorted_array)) (int idx)) (\<lambda>v_at.
              if \<bar>value - v_before\<bar> < \<bar>value - v_at\<bar>
              then getitem (positions (h3 ! idx_sorted)) (int idx - 1)
              else getitem (positions (h3 ! idx_sorted)) (int idx)))))"

subsection \<open>The arithmetic of the array's dtype\<close>

text \<open>
  \<^verbatim>\<open>abs(value - sorted_array[idx - 1])\<close> is computed by the subtraction and the \<^verbatim>\<open>abs\<close> of
  a dtype; the model takes the value and the elements of the array in that dtype. A dtype
  is given by these two operations on its values; the order of the values is the order of
  the numbers they are.
\<close>

record 'a dtype =
  subtract :: "'a \<Rightarrow> 'a \<Rightarrow> 'a"
  absolute :: "'a \<Rightarrow> 'a"

text \<open>A dtype that neither wraps nor rounds.\<close>

definition exact_dtype :: "'a::linordered_idom dtype" where
  "exact_dtype = \<lparr>subtract = (\<lambda>a b. a - b), absolute = (\<lambda>a. \<bar>a\<bar>)\<rparr>"

text \<open>
  \<^verbatim>\<open>int64\<close>: the values are the integers from \<open>- 2 ^ 63\<close> to \<open>2 ^ 63 - 1\<close>, and a result
  outside this range wraps around, so the \<^verbatim>\<open>abs\<close> of \<open>- 2 ^ 63\<close> is \<open>- 2 ^ 63\<close>.
\<close>

definition wrap64 :: "int \<Rightarrow> int" where
  "wrap64 x = (x + 2 ^ 63) mod 2 ^ 64 - 2 ^ 63"

definition int64 :: "int dtype" where
  "int64 = \<lparr>subtract = (\<lambda>a b. wrap64 (a - b)), absolute = (\<lambda>a. wrap64 \<bar>a\<bar>)\<rparr>"

definition find_nearest_index_np ::
  "'a dtype \<Rightarrow> ('a list \<Rightarrow> nat list) \<Rightarrow> 'a::linorder list \<Rightarrow> 'a \<Rightarrow> error + nat" where
  "find_nearest_index_np d argsort array value =
     (let idx_sorted = argsort array;
          sorted_array = map (\<lambda>i. array ! i) idx_sorted;
          idx = searchsorted_left sorted_array value
      in if idx \<ge> length array then getitem idx_sorted (int (length array) - 1)
         else if idx = 0 then getitem idx_sorted 0
         else
           err_bind (getitem sorted_array (int idx - 1)) (\<lambda>v_before.
           err_bind (getitem sorted_array (int idx)) (\<lambda>v_at.
             if absolute d (subtract d value v_before) < absolute d (subtract d value v_at)
             then getitem idx_sorted (int idx - 1)
             else getitem idx_sorted (int idx))))"

text \<open>
  The distance the code computes from the value to \<open>x\<close> is the true distance; and the
  distances \<^verbatim>\<open>find_nearest_index\<close> computes, if it computes any, are the true distances.
\<close>

definition exact_distance :: "'a::linordered_idom dtype \<Rightarrow> 'a \<Rightarrow> 'a \<Rightarrow> bool" where
  "exact_distance d value x \<longleftrightarrow> absolute d (subtract d value x) = \<bar>value - x\<bar>"

definition distances_exact ::
  "'a::linordered_idom dtype \<Rightarrow> ('a list \<Rightarrow> nat list) \<Rightarrow> 'a list \<Rightarrow> 'a \<Rightarrow> bool" where
  "distances_exact d argsort array value \<longleftrightarrow>
     (let s = sorted_values argsort array; k = insertion_point argsort array value
      in 0 < k \<and> k < length array \<longrightarrow>
           exact_distance d value (s ! (k - 1)) \<and> exact_distance d value (s ! k))"

subsection \<open>The scalar arithmetic of the window\<close>

text \<open>
  \<^verbatim>\<open>idx\<close> is an element of the array \<^verbatim>\<open>np.argsort\<close> returns, an \<^verbatim>\<open>np.int64\<close> scalar
  (a position of an array is below \<open>2 ^ 63\<close>);
  \<^verbatim>\<open>num_neighbors\<close>, \<^verbatim>\<open>0\<close> and \<^verbatim>\<open>len(array)\<close> are Python integers. An operation on two
  Python integers is exact. An operation with an \<^verbatim>\<open>np.int64\<close> converts a Python integer
  operand to \<^verbatim>\<open>int64\<close>, which raises \<^verbatim>\<open>OverflowError\<close> when it is out of range, and its
  result is an \<^verbatim>\<open>np.int64\<close> that wraps around. \<^verbatim>\<open>max(a, b)\<close> is \<open>b\<close> when \<open>a < b\<close> and \<open>a\<close>
  otherwise, \<^verbatim>\<open>min(a, b)\<close> is \<open>b\<close> when \<open>b < a\<close> and \<open>a\<close> otherwise, and both keep the kind of
  the operand they return.
\<close>

datatype scalar = PyInt int | Int64 int

fun scalar_value :: "scalar \<Rightarrow> int" where
  "scalar_value (PyInt x) = x"
| "scalar_value (Int64 x) = x"

definition fits_int64 :: "int \<Rightarrow> bool" where
  "fits_int64 x \<longleftrightarrow> - (2 ^ 63) \<le> x \<and> x < 2 ^ 63"

fun np_arith :: "(int \<Rightarrow> int \<Rightarrow> int) \<Rightarrow> scalar \<Rightarrow> scalar \<Rightarrow> error + scalar" where
  "np_arith f (PyInt a) (PyInt b) = Inr (PyInt (f a b))"
| "np_arith f (Int64 a) (PyInt b) =
     (if fits_int64 b then Inr (Int64 (wrap64 (f a b))) else Inl OverflowError)"
| "np_arith f (PyInt a) (Int64 b) =
     (if fits_int64 a then Inr (Int64 (wrap64 (f a b))) else Inl OverflowError)"
| "np_arith f (Int64 a) (Int64 b) = Inr (Int64 (wrap64 (f a b)))"

definition np_sub :: "scalar \<Rightarrow> scalar \<Rightarrow> error + scalar" where
  "np_sub = np_arith (\<lambda>a b. a - b)"

definition np_add :: "scalar \<Rightarrow> scalar \<Rightarrow> error + scalar" where
  "np_add = np_arith (\<lambda>a b. a + b)"

definition py_max :: "scalar \<Rightarrow> scalar \<Rightarrow> scalar" where
  "py_max a b = (if scalar_value a < scalar_value b then b else a)"

definition py_min :: "scalar \<Rightarrow> scalar \<Rightarrow> scalar" where
  "py_min a b = (if scalar_value b < scalar_value a then b else a)"

definition get_neighbors_index_np ::
  "'a dtype \<Rightarrow> ('a list \<Rightarrow> nat list) \<Rightarrow> 'a::linorder list \<Rightarrow> 'a \<Rightarrow> int \<Rightarrow> error + slice" where
  "get_neighbors_index_np d argsort array central num_neighbors =
     err_bind (find_nearest_index_np d argsort array central) (\<lambda>idx.
     err_bind (np_sub (Int64 (int idx)) (PyInt ((num_neighbors - 1) div 2))) (\<lambda>shifted.
       let start0 = py_max (PyInt 0) shifted
       in err_bind (np_add start0 (PyInt num_neighbors)) (\<lambda>reach.
            let stop = py_min (PyInt (int (length array))) reach
            in err_bind (np_sub stop (PyInt num_neighbors)) (\<lambda>start.
                 Inr (Slice (scalar_value start) (scalar_value stop))))))"

section \<open>Subscripts, binary search and argsort\<close>

lemma getitem_nat: "k < length xs \<Longrightarrow> getitem xs (int k) = Inr (xs ! k)"
  by (simp add: getitem_def)

lemma getitem_pred:
  "0 < k \<Longrightarrow> k \<le> length xs \<Longrightarrow> getitem xs (int k - 1) = Inr (xs ! (k - 1))"
  by (simp add: getitem_def nat_diff_distrib')

lemma getitem_Nil: "getitem [] i = Inl IndexError"
  by (simp add: getitem_def)

lemma bsearch_left_bounds:
  "sorted a \<Longrightarrow> lo \<le> hi \<Longrightarrow> hi \<le> length a \<Longrightarrow>
   \<forall>i<lo. a ! i < v \<Longrightarrow> \<forall>i. hi \<le> i \<and> i < length a \<longrightarrow> v \<le> a ! i \<Longrightarrow>
   lo \<le> bsearch_left a v lo hi \<and> bsearch_left a v lo hi \<le> hi \<and>
   (\<forall>i<bsearch_left a v lo hi. a ! i < v) \<and>
   (\<forall>i. bsearch_left a v lo hi \<le> i \<and> i < length a \<longrightarrow> v \<le> a ! i)"
proof (induction a v lo hi rule: bsearch_left.induct)
  case (1 a v lo hi)
  show ?case
  proof (cases "lo < hi")
    case False
    with "1.prems" have "lo = hi" by simp
    with "1.prems" show ?thesis
      by (simp add: bsearch_left.simps [of a v hi hi])
  next
    case True
    define mid where "mid = lo + (hi - lo) div 2"
    have mid: "lo \<le> mid" "mid < hi"
      using True by (simp_all add: mid_def) 
    show ?thesis
    proof (cases "a ! mid < v")
      case below: True
      have left: "\<forall>i<mid + 1. a ! i < v"
      proof (intro allI impI)
        fix i assume "i < mid + 1"
        then have "a ! i \<le> a ! mid"
          using "1.prems"(1,3) mid by (intro sorted_nth_mono) simp_all
        with below show "a ! i < v" by simp
      qed
      have eq: "bsearch_left a v lo hi = bsearch_left a v (mid + 1) hi"
        using True below by (subst bsearch_left.simps) (simp add: mid_def Let_def)
      have "mid + 1 \<le> bsearch_left a v (mid + 1) hi \<and> bsearch_left a v (mid + 1) hi \<le> hi \<and>
        (\<forall>i<bsearch_left a v (mid + 1) hi. a ! i < v) \<and>
        (\<forall>i. bsearch_left a v (mid + 1) hi \<le> i \<and> i < length a \<longrightarrow> v \<le> a ! i)"
        using "1.IH"(1) [OF True mid_def below "1.prems"(1) _ "1.prems"(3) left "1.prems"(5)] mid
        by simp
      with eq mid show ?thesis by simp
    next
      case notbelow: False
      have right: "\<forall>i. mid \<le> i \<and> i < length a \<longrightarrow> v \<le> a ! i"
      proof (intro allI impI)
        fix i assume "mid \<le> i \<and> i < length a"
        then have "a ! mid \<le> a ! i"
          using "1.prems"(1) by (intro sorted_nth_mono) simp_all
        with notbelow show "v \<le> a ! i" by simp
      qed
      have eq: "bsearch_left a v lo hi = bsearch_left a v lo mid"
        using True notbelow by (subst bsearch_left.simps) (simp add: mid_def Let_def)
      have "lo \<le> bsearch_left a v lo mid \<and> bsearch_left a v lo mid \<le> mid \<and>
        (\<forall>i<bsearch_left a v lo mid. a ! i < v) \<and>
        (\<forall>i. bsearch_left a v lo mid \<le> i \<and> i < length a \<longrightarrow> v \<le> a ! i)"
        using "1.IH"(2) [OF True mid_def notbelow "1.prems"(1) mid(1) _ "1.prems"(4) right]
          mid "1.prems"(3)
        by simp
      with eq mid show ?thesis by simp
    qed
  qed
qed

lemma searchsorted_left_spec:
  assumes "sorted a"
  shows "searchsorted_left a v \<le> length a"
    and "i < searchsorted_left a v \<Longrightarrow> a ! i < v"
    and "searchsorted_left a v \<le> i \<Longrightarrow> i < length a \<Longrightarrow> v \<le> a ! i"
proof -
  have beyond: "\<forall>i. length a \<le> i \<and> i < length a \<longrightarrow> v \<le> a ! i"
    using not_le by blast
  have none: "\<forall>i<0. a ! i < v"
    by simp
  note b = bsearch_left_bounds [OF assms _ _ none beyond]
  show "searchsorted_left a v \<le> length a"
    using b by (simp add: searchsorted_left_def)
  show "i < searchsorted_left a v \<Longrightarrow> a ! i < v"
    using b by (simp add: searchsorted_left_def)
  show "searchsorted_left a v \<le> i \<Longrightarrow> i < length a \<Longrightarrow> v \<le> a ! i"
    using b by (simp add: searchsorted_left_def)
qed

lemma is_argsort_set:
  assumes "is_argsort array p"
  shows "set p = {0..<length array}"
proof (rule card_subset_eq)
  show "finite {0..<length array}" by simp
  show "set p \<subseteq> {0..<length array}"
    using assms by (auto simp: is_argsort_def list_all_iff)
  show "card (set p) = card {0..<length array}"
    using assms by (simp add: is_argsort_def distinct_card)
qed

lemma np_argsort_is_argsort: "is_argsort array (np_argsort array)"
proof -
  define zs where "zs = zip array [0..<length array]"
  define ys where "ys = sort_key fst zs"
  have snd_zs: "map snd zs = [0..<length array]"
    by (simp add: zs_def)
  have "distinct (map snd zs)"
    by (simp add: snd_zs)
  then have d: "distinct zs" "inj_on snd (set zs)"
    by (simp_all add: distinct_map)
  have set_ys: "set ys = set zs"
    by (simp add: ys_def)
  have "distinct ys"
    using d(1) by (simp add: ys_def)
  with d(2) set_ys have dist: "distinct (map snd ys)"
    by (simp add: distinct_map)
  have "set (map snd ys) = set (map snd zs)"
    using set_ys by simp
  then have rng: "set (map snd ys) = {0..<length array}"
    by (simp add: snd_zs)
  have "array ! snd z = fst z" if "z \<in> set ys" for z
  proof -
    from that set_ys have "z \<in> set (zip array [0..<length array])"
      by (simp add: zs_def)
    then obtain k where "k < length array" "z = (array ! k, k)"
      by (auto simp: in_set_zip)
    then show ?thesis by simp
  qed
  then have vals: "map (\<lambda>i. array ! i) (map snd ys) = map fst ys"
    by simp
  have srt: "sorted (map (\<lambda>i. array ! i) (map snd ys))"
    unfolding vals by (simp add: ys_def)
  have len: "length (map snd ys) = length array"
    by (simp add: ys_def zs_def)
  have "np_argsort array = map snd ys"
    by (simp add: np_argsort_def ys_def zs_def)
  with len dist rng srt show ?thesis
    unfolding is_argsort_def list_all_iff by auto
qed

section \<open>The position \<^verbatim>\<open>find_nearest_index\<close> returns\<close>

lemma find_nearest_index_eq:
  fixes array :: "real list" and "value" :: real
  assumes "is_argsort array (argsort array)" and "array \<noteq> []"
  defines "s \<equiv> sorted_values argsort array"
  defines "k \<equiv> insertion_point argsort array value"
  shows "find_nearest_index argsort array value =
    Inr (argsort array !
      (if length array \<le> k then length array - 1
       else if k = 0 then 0
       else if \<bar>value - s ! (k - 1)\<bar> < \<bar>value - s ! k\<bar> then k - 1 else k))"
proof -
  have len: "length (argsort array) = length array" "length s = length array"
    using assms(1) by (simp_all add: is_argsort_def s_def sorted_values_def)
  have pos: "0 < length array"
    using assms(2) by simp
  show ?thesis
  proof (cases "length array \<le> k")
    case True
    then show ?thesis
      using getitem_pred [of "length array" "argsort array"] pos len
      unfolding find_nearest_index_def s_def k_def insertion_point_def sorted_values_def
      by (simp add: Let_def)
  next
    case False
    then have "k < length array" by simp
    have first: "getitem (argsort array) 0 = Inr (argsort array ! 0)"
      using getitem_nat [of 0 "argsort array"] pos len by simp
    from \<open>k < length array\<close> show ?thesis
      using getitem_pred [of k "argsort array"] getitem_pred [of k s]
        getitem_nat [of k "argsort array"] getitem_nat [of k s] first len
      unfolding find_nearest_index_def s_def k_def insertion_point_def sorted_values_def
      by (simp add: Let_def err_bind_def)
  qed
qed

lemma sorted_nearest:
  fixes s :: "'a::linordered_idom list" and v :: 'a
  assumes "sorted s" and "s \<noteq> []"
  defines "k \<equiv> searchsorted_left s v"
  defines "c \<equiv> (if length s \<le> k then length s - 1
       else if k = 0 then 0
       else if \<bar>v - s ! (k - 1)\<bar> < \<bar>v - s ! k\<bar> then k - 1 else k)"
  shows "c < length s" and "j < length s \<Longrightarrow> \<bar>s ! c - v\<bar> \<le> \<bar>s ! j - v\<bar>"
proof -
  have pos: "0 < length s" using assms(2) by simp
  show c: "c < length s"
    using pos by (auto simp: c_def)
  assume j: "j < length s"
  have below: "s ! i < v" if "i < k" for i
    using searchsorted_left_spec(2) [OF assms(1)] that by (simp add: k_def)
  have above: "v \<le> s ! i" if "k \<le> i" "i < length s" for i
    using searchsorted_left_spec(3) [OF assms(1)] that by (simp add: k_def)
  have mono: "s ! a \<le> s ! b" if "a \<le> b" "b < length s" for a b
    using assms(1) that by (rule sorted_nth_mono)
  show "\<bar>s ! c - v\<bar> \<le> \<bar>s ! j - v\<bar>"
  proof (cases "length s \<le> k")
    case True
    then have "c = length s - 1" by (simp add: c_def)
    moreover have "s ! j \<le> s ! (length s - 1)"
      using j by (intro mono) simp_all
    moreover have "s ! (length s - 1) < v"
      using True pos by (intro below) arith
    ultimately show ?thesis by simp
  next
    case kin: False
    show ?thesis
    proof (cases "k = 0")
      case True
      then have "c = 0" using kin by (simp add: c_def)
      moreover have "s ! 0 \<le> s ! j"
        using j by (intro mono) simp_all
      moreover have "v \<le> s ! 0"
        using True pos by (intro above) simp_all
      ultimately show ?thesis by simp
    next
      case False
      have b: "s ! (k - 1) < v" using False by (intro below) simp
      have a: "v \<le> s ! k" using kin by (intro above) simp_all
      have cc: "\<bar>s ! c - v\<bar> \<le> \<bar>s ! (k - 1) - v\<bar>" "\<bar>s ! c - v\<bar> \<le> \<bar>s ! k - v\<bar>"
        using kin False by (auto simp: c_def)
      show ?thesis
      proof (cases "j < k")
        case True
        then have "s ! j \<le> s ! (k - 1)"
          using kin by (intro mono) simp_all
        with b cc(1) show ?thesis by simp
      next
        case False
        then have "s ! k \<le> s ! j"
          using j by (intro mono) simp_all
        with a cc(2) show ?thesis by simp
      qed
    qed
  qed
qed

lemma sorted_values_facts:
  assumes "is_argsort array (argsort array)"
  shows "sorted (sorted_values argsort array)"
    and "length (sorted_values argsort array) = length array"
    and "length (argsort array) = length array"
    and "k < length array \<Longrightarrow> argsort array ! k < length array"
    and "k < length array \<Longrightarrow> sorted_values argsort array ! k = array ! (argsort array ! k)"
    and "j < length array \<Longrightarrow> \<exists>k<length array. argsort array ! k = j"
proof -
  show "sorted (sorted_values argsort array)"
    and len: "length (argsort array) = length array"
    and "length (sorted_values argsort array) = length array"
    using assms by (simp_all add: is_argsort_def sorted_values_def)
  have set: "set (argsort array) = {0..<length array}"
    using assms by (rule is_argsort_set)
  show "argsort array ! k < length array" if "k < length array"
  proof -
    have "argsort array ! k \<in> set (argsort array)"
      using that len by simp
    then show ?thesis by (simp add: set)
  qed
  show "sorted_values argsort array ! k = array ! (argsort array ! k)" if "k < length array"
    using that len by (simp add: sorted_values_def)
  show "\<exists>k<length array. argsort array ! k = j" if "j < length array"
  proof -
    have "j \<in> set (argsort array)"
      using that by (simp add: set)
    then show ?thesis
      by (simp add: in_set_conv_nth len)
  qed
qed

lemma find_nearest_index_closest:
  fixes array :: "real list" and "value" :: real
  assumes "is_argsort array (argsort array)" and "array \<noteq> []"
  shows "\<exists>i. find_nearest_index argsort array value = Inr i \<and> i < length array \<and>
           (\<forall>j<length array. \<bar>array ! i - value\<bar> \<le> \<bar>array ! j - value\<bar>)"
proof -
  define s where "s = sorted_values argsort array"
  define k where "k = searchsorted_left s value"
  define c where "c = (if length s \<le> k then length s - 1
       else if k = 0 then 0
       else if \<bar>value - s ! (k - 1)\<bar> < \<bar>value - s ! k\<bar> then k - 1 else k)"
  note f = sorted_values_facts [where argsort = argsort and array = array, OF assms(1)]
  have srt: "sorted s" and len: "length s = length array"
    using f(1,2) by (simp_all add: s_def)
  have ne: "s \<noteq> []"
    using len assms(2) by auto
  have c: "c < length s"
    unfolding c_def k_def by (rule sorted_nearest(1) [OF srt ne])
  have near: "\<bar>s ! c - value\<bar> \<le> \<bar>s ! j - value\<bar>" if "j < length s" for j
    unfolding c_def k_def by (rule sorted_nearest(2) [OF srt ne that])
  have res: "find_nearest_index argsort array value = Inr (argsort array ! c)"
    unfolding c_def k_def s_def insertion_point_def [symmetric] f(2)
    by (rule find_nearest_index_eq [where argsort = argsort and array = array, OF assms])
  have c': "c < length array"
    using c len by simp
  have "\<bar>array ! (argsort array ! c) - value\<bar> \<le> \<bar>array ! j - value\<bar>"
    if "j < length array" for j
  proof -
    from f(6) [OF that] obtain k' where k': "k' < length array" "argsort array ! k' = j"
      by blast
    have "\<bar>s ! c - value\<bar> \<le> \<bar>s ! k' - value\<bar>"
      using k'(1) len by (intro near) simp
    then show ?thesis
      using f(5) [OF c'] f(5) [OF k'(1)] k'(2) by (simp add: s_def)
  qed
  with res f(4) [OF c'] show ?thesis by simp
qed

lemma sorted_values_set:
  assumes "is_argsort array (argsort array)"
  shows "set (sorted_values argsort array) = set array"
proof -
  have "set (sorted_values argsort array) = (\<lambda>i. array ! i) ` set (argsort array)"
    by (simp add: sorted_values_def)
  also have "\<dots> = (\<lambda>i. array ! i) ` {0..<length array}"
    using is_argsort_set [OF assms] by simp
  also have "\<dots> = set array"
    by (auto simp: set_conv_nth)
  finally show ?thesis .
qed

lemma sorted_Max_last:
  fixes s :: "real list"
  assumes "sorted s" and "s \<noteq> []"
  shows "Max (set s) = s ! (length s - 1)"
proof (rule Max_eqI)
  show "finite (set s)" by simp
  show "s ! (length s - 1) \<in> set s"
    using assms(2) by simp
  fix y assume "y \<in> set s"
  then obtain j where "j < length s" "y = s ! j"
    by (auto simp: in_set_conv_nth)
  then show "y \<le> s ! (length s - 1)"
    using assms(1) by (simp add: sorted_nth_mono)
qed

lemma sorted_Min_first:
  fixes s :: "real list"
  assumes "sorted s" and "s \<noteq> []"
  shows "Min (set s) = s ! 0"
proof (rule Min_eqI)
  show "finite (set s)" by simp
  show "s ! 0 \<in> set s"
    using assms(2) by simp
  fix y assume "y \<in> set s"
  then obtain j where "j < length s" "y = s ! j"
    by (auto simp: in_set_conv_nth)
  then show "s ! 0 \<le> y"
    using assms(1) by (simp add: sorted_nth_mono)
qed

section \<open>The window, the empty array, the store\<close>

lemma half_window_bounds: "1 \<le> n \<Longrightarrow> 0 \<le> (n - 1) div 2 \<and> (n - 1) div 2 \<le> n - 1" for n :: int
  by presburger

lemma get_neighbors_index_eq:
  assumes "find_nearest_index argsort array central = Inr idx"
  shows "get_neighbors_index argsort array central num_neighbors =
     Inr (Slice
       (min (int (length array)) (max 0 (int idx - (num_neighbors - 1) div 2) + num_neighbors)
          - num_neighbors)
       (min (int (length array)) (max 0 (int idx - (num_neighbors - 1) div 2) + num_neighbors)))"
  using assms by (simp add: get_neighbors_index_def err_bind_def Let_def)

lemma find_nearest_index_Nil:
  assumes "is_argsort [] (argsort [])"
  shows "find_nearest_index argsort [] value = Inl IndexError"
proof -
  have "argsort [] = []"
    using assms by (simp add: is_argsort_def)
  then show ?thesis
    by (simp add: find_nearest_index_def searchsorted_left_def bsearch_left.simps [of _ _ 0 0]
        getitem_Nil)
qed

lemma argsort_unique:
  fixes array :: "real list"
  assumes "is_argsort array p" and "is_argsort array q" and "distinct array"
  shows "p = q"
proof -
  let ?f = "\<lambda>i. array ! i"
  have sp: "set p = {0..<length array}" and sq: "set q = {0..<length array}"
    using assms(1,2) by (simp_all add: is_argsort_set)
  have inj: "inj_on ?f {0..<length array}"
    using assms(3) by (auto simp: inj_on_def nth_eq_iff_index_eq)
  have dp: "distinct (map ?f p)" and dq: "distinct (map ?f q)"
    using assms(1,2) inj sp sq by (simp_all add: distinct_map is_argsort_def)
  have "sorted (map ?f p)" and "sorted (map ?f q)"
    using assms(1,2) by (simp_all add: is_argsort_def)
  moreover have "set (map ?f p) = set (map ?f q)"
    by (simp add: sp sq)
  ultimately have "map ?f p = map ?f q"
    using dp dq by (intro sorted_distinct_set_unique)
  moreover have "inj_on ?f (set p \<union> set q)"
    using inj by (simp add: sp sq)
  ultimately show ?thesis
    by (simp add: inj_on_map_eq_map)
qed

lemma find_nearest_index_cong:
  "argsort array = argsort' array \<Longrightarrow>
   find_nearest_index argsort array value = find_nearest_index argsort' array value"
  by (simp add: find_nearest_index_def)

lemma get_neighbors_index_cong:
  "argsort array = argsort' array \<Longrightarrow>
   get_neighbors_index argsort array central n = get_neighbors_index argsort' array central n"
  by (simp add: get_neighbors_index_def find_nearest_index_cong [of argsort array argsort'])

lemma find_nearest_index_heap_eq:
  assumes "array < length h" and "floats (h ! array) = a"
  shows "find_nearest_index_heap argsort h array value =
    (h @ [IntpArray (argsort a),
          FloatArray (map (\<lambda>i. a ! i) (argsort a)),
          FloatArray (map (\<lambda>i. a ! i) (argsort a))],
     find_nearest_index argsort a value)"
  using assms
  by (simp add: find_nearest_index_heap_def find_nearest_index_def alloc_def Let_def nth_append
      cong del: if_weak_cong)

section \<open>The dtype and scalar arithmetic\<close>

lemma wrap64_id: "fits_int64 x \<Longrightarrow> wrap64 x = x"
  by (simp add: wrap64_def fits_int64_def)

lemma int64_exact_distance: "\<bar>a - b\<bar> < 2 ^ 63 \<Longrightarrow> exact_distance int64 a b"
proof -
  assume small: "\<bar>a - b\<bar> < 2 ^ 63"
  then have "fits_int64 (a - b)" and "fits_int64 \<bar>a - b\<bar>"
    unfolding fits_int64_def by linarith+
  then show ?thesis
    by (simp add: exact_distance_def int64_def wrap64_id)
qed

lemma int64_distances_exact:
  assumes "is_argsort array (argsort array)" and "\<forall>x\<in>set array. \<bar>value - x\<bar> < 2 ^ 63"
  shows "distances_exact int64 argsort array value"
proof -
  have "sorted_values argsort array ! k \<in> set array" if "k < length array" for k
    using sorted_values_facts(2) [where argsort = argsort and array = array, OF assms(1)]
      sorted_values_set [where argsort = argsort and array = array, OF assms(1)] that
    by (metis nth_mem)
  with assms(2) show ?thesis
    by (auto simp: distances_exact_def Let_def intro!: int64_exact_distance)
qed

lemma exact_dtype_distances_exact: "distances_exact exact_dtype argsort array value"
  by (simp add: distances_exact_def exact_distance_def exact_dtype_def)

lemma find_nearest_index_np_exact_dtype:
  "find_nearest_index_np exact_dtype argsort array value = find_nearest_index argsort array value"
  by (simp add: find_nearest_index_np_def find_nearest_index_def exact_dtype_def
      cong del: if_weak_cong)

lemma find_nearest_index_np_eq:
  fixes array :: "'a::linorder list" and "value" :: 'a
  assumes "is_argsort array (argsort array)" and "array \<noteq> []"
  defines "s \<equiv> sorted_values argsort array"
  defines "k \<equiv> insertion_point argsort array value"
  shows "find_nearest_index_np d argsort array value =
    Inr (argsort array !
      (if length array \<le> k then length array - 1
       else if k = 0 then 0
       else if absolute d (subtract d value (s ! (k - 1))) < absolute d (subtract d value (s ! k))
            then k - 1 else k))"
proof -
  have len: "length (argsort array) = length array" "length s = length array"
    using assms(1) by (simp_all add: is_argsort_def s_def sorted_values_def)
  have pos: "0 < length array"
    using assms(2) by simp
  show ?thesis
  proof (cases "length array \<le> k")
    case True
    then show ?thesis
      using getitem_pred [of "length array" "argsort array"] pos len
      unfolding find_nearest_index_np_def s_def k_def insertion_point_def sorted_values_def
      by (simp add: Let_def)
  next
    case False
    then have "k < length array" by simp
    have first: "getitem (argsort array) 0 = Inr (argsort array ! 0)"
      using getitem_nat [of 0 "argsort array"] pos len by simp
    from \<open>k < length array\<close> show ?thesis
      using getitem_pred [of k "argsort array"] getitem_pred [of k s]
        getitem_nat [of k "argsort array"] getitem_nat [of k s] first len
      unfolding find_nearest_index_np_def s_def k_def insertion_point_def sorted_values_def
      by (simp add: Let_def err_bind_def)
  qed
qed

lemma find_nearest_index_np_position:
  fixes array :: "'a::linorder list"
  assumes "is_argsort array (argsort array)" and "array \<noteq> []"
  shows "\<exists>idx<length array. find_nearest_index_np d argsort array value = Inr idx"
proof -
  note f = sorted_values_facts [where argsort = argsort and array = array, OF assms(1)]
  note e = find_nearest_index_np_eq [where argsort = argsort and array = array, OF assms, of d "value"]
  have pos: "0 < length array"
    using assms(2) by simp
  define k where "k = insertion_point argsort array value"
  show ?thesis
  proof (cases "length array \<le> k")
    case True
    with e f(4) [of "length array - 1"] pos show ?thesis
      by (simp add: k_def)
  next
    case False
    then have k: "k < length array" "k - 1 < length array" by simp_all
    with e f(4) [of k] f(4) [of "k - 1"] f(4) [of 0] pos False show ?thesis
      by (auto simp: k_def)
  qed
qed

lemma find_nearest_index_np_Nil:
  assumes "is_argsort [] (argsort [])"
  shows "find_nearest_index_np d argsort [] value = Inl IndexError"
proof -
  have "argsort [] = []"
    using assms by (simp add: is_argsort_def)
  then show ?thesis
    by (simp add: find_nearest_index_np_def searchsorted_left_def bsearch_left.simps [of _ _ 0 0]
        getitem_Nil)
qed


lemma half_window_range:
  fixes n :: int
  assumes "- (2 ^ 62) \<le> n" and "n \<le> 2 ^ 62"
  shows "- (2 ^ 62) \<le> (n - 1) div 2" and "(n - 1) div 2 < 2 ^ 62"
  using assms by simp_all

lemma get_neighbors_index_np_eq:
  assumes idx: "find_nearest_index_np d argsort array central = Inr idx"
    and inside: "idx < length array"
    and len: "int (length array) < 2 ^ 62"
    and lo: "- (2 ^ 62) \<le> num_neighbors" and hi: "num_neighbors \<le> 2 ^ 62"
  shows "get_neighbors_index_np d argsort array central num_neighbors
           = Inr (window_recipe (length array) idx num_neighbors)"
proof -
  define half where "half = (num_neighbors - 1) div 2"
  define x where "x = int idx - half"
  have half: "- (2 ^ 62) \<le> half" "half < 2 ^ 62"
    using half_window_range [OF lo hi] by (simp_all add: half_def)
  have neg: "half \<le> 0" if "num_neighbors \<le> 0"
    using that by (simp add: half_def)
  have nonneg: "0 \<le> half" if "0 < num_neighbors"
    using that by (simp add: half_def)
  have fh: "fits_int64 half" and fn: "fits_int64 num_neighbors"
    using half lo hi by (simp_all add: fits_int64_def)
  have fx: "fits_int64 x"
    using half inside len by (simp add: fits_int64_def x_def)
  have shifted: "np_sub (Int64 (int idx)) (PyInt half) = Inr (Int64 x)"
    using fh fx by (simp add: np_sub_def wrap64_id x_def)
  show ?thesis
  proof (cases "0 < x")
    case True
    have xn: "fits_int64 (x + num_neighbors)"
    proof (cases "0 < num_neighbors")
      case True
      with nonneg have "x \<le> int idx" by (simp add: x_def)
      with \<open>0 < x\<close> True inside len hi show ?thesis
        by (simp add: fits_int64_def)
    next
      case False
      with \<open>0 < x\<close> fx lo show ?thesis
        by (simp add: fits_int64_def)
    qed
    have start0: "py_max (PyInt 0) (Int64 x) = Int64 x"
      using True by (simp add: py_max_def)
    have reach: "np_add (Int64 x) (PyInt num_neighbors) = Inr (Int64 (x + num_neighbors))"
      using fn xn by (simp add: np_add_def wrap64_id)
    show ?thesis
    proof (cases "x + num_neighbors < int (length array)")
      case inner: True
      have stop: "py_min (PyInt (int (length array))) (Int64 (x + num_neighbors))
          = Int64 (x + num_neighbors)"
        using inner by (simp add: py_min_def)
      have start: "np_sub (Int64 (x + num_neighbors)) (PyInt num_neighbors) = Inr (Int64 x)"
        using fn fx by (simp add: np_sub_def wrap64_id)
      show ?thesis
        using True inner
        by (simp add: get_neighbors_index_np_def err_bind_def Let_def idx half_def [symmetric]
            shifted start0 reach stop start window_recipe_def x_def [symmetric])
    next
      case outer: False
      have stop: "py_min (PyInt (int (length array))) (Int64 (x + num_neighbors))
          = PyInt (int (length array))"
        using outer by (simp add: py_min_def)
      have start: "np_sub (PyInt (int (length array))) (PyInt num_neighbors)
          = Inr (PyInt (int (length array) - num_neighbors))"
        by (simp add: np_sub_def)
      show ?thesis
        using True outer
        by (simp add: get_neighbors_index_np_def err_bind_def Let_def idx half_def [symmetric]
            shifted start0 reach stop start window_recipe_def x_def [symmetric])
    qed
  next
    case False
    have start0: "py_max (PyInt 0) (Int64 x) = PyInt 0"
      using False by (simp add: py_max_def)
    have reach: "np_add (PyInt 0) (PyInt num_neighbors) = Inr (PyInt num_neighbors)"
      by (simp add: np_add_def)
    have start: "np_sub (py_min (PyInt (int (length array))) (PyInt num_neighbors))
          (PyInt num_neighbors)
        = Inr (PyInt (min (int (length array)) num_neighbors - num_neighbors))"
      by (simp add: np_sub_def py_min_def)
    have stop: "scalar_value (py_min (PyInt (int (length array))) (PyInt num_neighbors))
        = min (int (length array)) num_neighbors"
      by (simp add: py_min_def)
    show ?thesis
      using False
      by (simp add: get_neighbors_index_np_def err_bind_def Let_def idx half_def [symmetric]
          shifted start0 reach stop start window_recipe_def x_def [symmetric])
  qed
qed

lemma get_neighbors_index_np_exact_dtype:
  fixes array :: "real list"
  assumes "is_argsort array (argsort array)" and "array \<noteq> []"
    and "int (length array) < 2 ^ 62"
    and "- (2 ^ 62) \<le> num_neighbors" and "num_neighbors \<le> 2 ^ 62"
  shows "get_neighbors_index_np exact_dtype argsort array central num_neighbors
           = get_neighbors_index argsort array central num_neighbors"
proof -
  from find_nearest_index_np_position
    [where argsort = argsort and array = array, OF assms(1,2), of exact_dtype central]
  obtain idx where idx: "idx < length array"
    "find_nearest_index_np exact_dtype argsort array central = Inr idx"
    by blast
  then have "find_nearest_index argsort array central = Inr idx"
    by (simp add: find_nearest_index_np_exact_dtype)
  then show ?thesis
    using get_neighbors_index_np_eq [OF idx(2,1) assms(3,4,5)]
    by (simp add: get_neighbors_index_eq window_recipe_def)
qed

section \<open>Claims about \<^verbatim>\<open>find_nearest_index\<close>\<close>







text \<open>
  The same run, read at the insertion point: it is 1, strictly inside, the distance
  \<open>2 ^ 63\<close> to the element before it is not less than the distance 0 to the element at it,
  and the result is the position of the element before.
\<close>

theorem int64_wrap_prefers_farther:
  "is_argsort [- (2 ^ 63), 0 :: int] (np_argsort [- (2 ^ 63), 0 :: int]) \<and>
   np_argsort [- (2 ^ 63), 0 :: int] = [0, 1] \<and>
   sorted_values np_argsort [- (2 ^ 63), 0 :: int] = [- (2 ^ 63), 0] \<and>
   insertion_point np_argsort [- (2 ^ 63), 0 :: int] 0 = 1 \<and>
   \<not> \<bar>0 - (- (2 ^ 63) :: int)\<bar> < \<bar>0 - (0 :: int)\<bar> \<and>
   find_nearest_index_np int64 np_argsort [- (2 ^ 63), 0] 0 = Inr 0"
  by code_simp

text \<open>
  C4, as amended. When the leftmost insertion point \<open>k\<close> of the value lies strictly inside
  the sorted array (\<open>0 < k < len(array)\<close>), the value lies between the sorted elements
  \<open>k - 1\<close> and \<open>k\<close>. When moreover the two distances the code computes are exact in the
  dtype of the array: if the distance to the element before the insertion point is
  strictly less than the distance to the element at the insertion point, the result is
  the original position of the element before; otherwise, a tie included, it is the
  original position of the element at the insertion point.
\<close>

theorem find_nearest_index_np_interior:
  fixes array :: "'a::linordered_idom list" and "value" :: 'a
  assumes "is_argsort array (argsort array)"
    and "0 < insertion_point argsort array value"
    and "insertion_point argsort array value < length array"
    and "distances_exact d argsort array value"
  shows "(let p = argsort array; s = sorted_values argsort array;
              k = insertion_point argsort array value
          in s ! (k - 1) < value \<and> value \<le> s ! k \<and>
             array ! (p ! (k - 1)) = s ! (k - 1) \<and> array ! (p ! k) = s ! k \<and>
             (\<bar>value - s ! (k - 1)\<bar> < \<bar>value - s ! k\<bar> \<longrightarrow>
                find_nearest_index_np d argsort array value = Inr (p ! (k - 1))) \<and>
             (\<bar>value - s ! k\<bar> \<le> \<bar>value - s ! (k - 1)\<bar> \<longrightarrow>
                find_nearest_index_np d argsort array value = Inr (p ! k)))"
proof -
  define s where "s = sorted_values argsort array"
  define k where "k = insertion_point argsort array value"
  note f = sorted_values_facts [where argsort = argsort and array = array, OF assms(1)]
  have k: "0 < k" "k < length array"
    using assms(2,3) by (simp_all add: k_def)
  then have ne: "array \<noteq> []" by auto
  have srt: "sorted s"
    using f(1) by (simp add: s_def)
  have kk: "k = searchsorted_left s value"
    by (simp add: k_def s_def insertion_point_def)
  have "s ! (k - 1) < value"
    using searchsorted_left_spec(2) [OF srt, of "k - 1" "value"] k(1) by (simp add: kk)
  moreover have "value \<le> s ! k"
  proof (rule searchsorted_left_spec(3) [OF srt])
    show "searchsorted_left s value \<le> k" by (simp add: kk)
    show "k < length s" using k(2) f(2) by (simp add: s_def)
  qed
  moreover have "array ! (argsort array ! (k - 1)) = s ! (k - 1)"
    using f(5) [of "k - 1"] k by (simp add: s_def)
  moreover have "array ! (argsort array ! k) = s ! k"
    using f(5) [of k] k by (simp add: s_def)
  moreover have "absolute d (subtract d value (s ! (k - 1))) = \<bar>value - s ! (k - 1)\<bar>"
    and "absolute d (subtract d value (s ! k)) = \<bar>value - s ! k\<bar>"
    using assms(4) k
    by (simp_all add: distances_exact_def Let_def exact_distance_def s_def k_def)
  then have "find_nearest_index_np d argsort array value =
      Inr (argsort array ! (if \<bar>value - s ! (k - 1)\<bar> < \<bar>value - s ! k\<bar> then k - 1 else k))"
    using find_nearest_index_np_eq
      [where argsort = argsort and array = array, OF assms(1) ne, of d "value"] k
    by (simp add: s_def k_def)
  ultimately show ?thesis
    by (simp add: Let_def s_def k_def)
qed

theorem find_nearest_index_np_interior_witness:
  "is_argsort [10, 1, 7, 3, 9 :: int] (np_argsort [10, 1, 7, 3, 9 :: int]) \<and>
   insertion_point np_argsort [10, 1, 7, 3, 9 :: int] 5 = 2 \<and>
   distances_exact int64 np_argsort [10, 1, 7, 3, 9] 5 \<and>
   find_nearest_index_np int64 np_argsort [10, 1, 7, 3, 9] 5 = Inr 2 \<and>
   insertion_point np_argsort [10, 1, 7, 3, 9 :: int] 4 = 2 \<and>
   distances_exact int64 np_argsort [10, 1, 7, 3, 9] 4 \<and>
   find_nearest_index_np int64 np_argsort [10, 1, 7, 3, 9] 4 = Inr 3"
proof -
  have a: "is_argsort [10, 1, 7, 3, 9 :: int] (np_argsort [10, 1, 7, 3, 9 :: int])"
    by code_simp
  have p: "np_argsort [10, 1, 7, 3, 9 :: int] = [1, 3, 2, 4, 0]"
    by code_simp
  have s: "sorted_values np_argsort [10, 1, 7, 3, 9 :: int] = [1, 3, 7, 9, 10]"
    by code_simp
  have k5: "insertion_point np_argsort [10, 1, 7, 3, 9 :: int] 5 = 2"
    by code_simp
  have k4: "insertion_point np_argsort [10, 1, 7, 3, 9 :: int] 4 = 2"
    by code_simp
  have e5: "distances_exact int64 np_argsort [10, 1, 7, 3, 9] 5"
    by code_simp
  have e4: "distances_exact int64 np_argsort [10, 1, 7, 3, 9] 4"
    by code_simp
  have "find_nearest_index_np int64 np_argsort [10, 1, 7, 3, 9] 5 = Inr 2"
    using find_nearest_index_np_interior
      [where argsort = np_argsort and array = "[10, 1, 7, 3, 9]" and d = int64, OF a _ _ e5]
    by (simp add: k5 p s)
  moreover have "find_nearest_index_np int64 np_argsort [10, 1, 7, 3, 9] 4 = Inr 3"
    using find_nearest_index_np_interior
      [where argsort = np_argsort and array = "[10, 1, 7, 3, 9]" and d = int64, OF a _ _ e4]
    by (simp add: k4 p s)
  ultimately show ?thesis
    using a k5 k4 e5 e4 by simp
qed

text \<open>
  C6. For a non-empty array: when the insertion point is at or beyond the end of the
  array, the result is the original position of the largest element; when the insertion
  point is 0, it is the original position of the smallest element.
\<close>

theorem find_nearest_index_ends:
  fixes array :: "real list" and "value" :: real
  assumes "is_argsort array (argsort array)" and "array \<noteq> []"
  shows "(length array \<le> insertion_point argsort array value \<longrightarrow>
            find_nearest_index argsort array value = Inr (argsort array ! (length array - 1)) \<and>
            argsort array ! (length array - 1) < length array \<and>
            array ! (argsort array ! (length array - 1)) = Max (set array)) \<and>
         (insertion_point argsort array value = 0 \<longrightarrow>
            find_nearest_index argsort array value = Inr (argsort array ! 0) \<and>
            argsort array ! 0 < length array \<and>
            array ! (argsort array ! 0) = Min (set array))"
proof -
  define s where "s = sorted_values argsort array"
  note f = sorted_values_facts [where argsort = argsort and array = array, OF assms(1)]
  note e = find_nearest_index_eq [where argsort = argsort and array = array, OF assms, of "value"]
  have pos: "0 < length array"
    using assms(2) by simp
  have srt: "sorted s" and len: "length s = length array"
    using f(1,2) by (simp_all add: s_def)
  have ne: "s \<noteq> []"
    using len assms(2) by auto
  have set: "set s = set array"
    unfolding s_def using assms(1) by (rule sorted_values_set)
  have "array ! (argsort array ! (length array - 1)) = s ! (length s - 1)"
    using f(5) [of "length array - 1"] pos len by (simp add: s_def)
  also have "\<dots> = Max (set array)"
    using sorted_Max_last [OF srt ne] set by simp
  finally have last: "array ! (argsort array ! (length array - 1)) = Max (set array)" .
  have "array ! (argsort array ! 0) = s ! 0"
    using f(5) [of 0] pos by (simp add: s_def)
  also have "\<dots> = Min (set array)"
    using sorted_Min_first [OF srt ne] set by simp
  finally have first: "array ! (argsort array ! 0) = Min (set array)" .
  show ?thesis
    using e last first f(4) [of 0] f(4) [of "length array - 1"] pos
    by auto
qed

theorem find_nearest_index_ends_witness:
  "is_argsort [10, 1, 7, 3, 9 :: real] (np_argsort [10, 1, 7, 3, 9 :: real]) \<and> [10, 1, 7, 3, 9 :: real] \<noteq> [] \<and>
   insertion_point np_argsort [10, 1, 7, 3, 9 :: real] 11 = 5 \<and>
   find_nearest_index np_argsort [10, 1, 7, 3, 9 :: real] 11 = Inr 0 \<and>
   [10, 1, 7, 3, 9 :: real] ! 0 = Max (set [10, 1, 7, 3, 9 :: real]) \<and>
   insertion_point np_argsort [10, 1, 7, 3, 9 :: real] 0 = 0 \<and>
   find_nearest_index np_argsort [10, 1, 7, 3, 9 :: real] 0 = Inr 1 \<and>
   [10, 1, 7, 3, 9 :: real] ! 1 = Min (set [10, 1, 7, 3, 9 :: real])"
proof -
  have a: "is_argsort [10, 1, 7, 3, 9 :: real] (np_argsort [10, 1, 7, 3, 9 :: real])"
    by code_simp
  have ne: "[10, 1, 7, 3, 9 :: real] \<noteq> []"
    by simp
  have p: "np_argsort [10, 1, 7, 3, 9 :: real] = [1, 3, 2, 4, 0]"
    by code_simp
  have k11: "insertion_point np_argsort [10, 1, 7, 3, 9 :: real] 11 = 5"
    by code_simp
  have k0: "insertion_point np_argsort [10, 1, 7, 3, 9 :: real] 0 = 0"
    by code_simp
  have "find_nearest_index np_argsort [10, 1, 7, 3, 9 :: real] 11 = Inr 0 \<and>
      [10, 1, 7, 3, 9 :: real] ! 0 = Max (set [10, 1, 7, 3, 9 :: real])"
    using find_nearest_index_ends
      [where argsort = np_argsort and array = "[10, 1, 7, 3, 9 :: real]", OF a ne, of 11]
    by (simp add: k11 p)
  moreover have "find_nearest_index np_argsort [10, 1, 7, 3, 9 :: real] 0 = Inr 1 \<and>
      [10, 1, 7, 3, 9 :: real] ! 1 = Min (set [10, 1, 7, 3, 9 :: real])"
    using find_nearest_index_ends
      [where argsort = np_argsort and array = "[10, 1, 7, 3, 9 :: real]", OF a ne, of 0]
    by (simp add: k0 p)
  ultimately show ?thesis
    using a k11 k0 by simp
qed

text \<open>
  C8. On the array \<^verbatim>\<open>[10, 1, 7, 3, 9]\<close> the sorted values are \<^verbatim>\<open>[1, 3, 7, 9, 10]\<close> at the
  original positions \<^verbatim>\<open>[1, 3, 2, 4, 0]\<close>, the insertion point of 6 is 2,
  \<^verbatim>\<open>find_nearest_index(array, 6)\<close> is 2 and \<^verbatim>\<open>get_neighbors_index(array, 6, 3)\<close> is the
  range \<open>[1, 4)\<close>. The values are distinct, so every argsort gives the same permutation.
\<close>

theorem spec_example:
  assumes "is_argsort [10, 1, 7, 3, 9 :: real] (argsort [10, 1, 7, 3, 9])"
  shows "argsort [10, 1, 7, 3, 9] = [1, 3, 2, 4, 0] \<and>
         sorted_values argsort [10, 1, 7, 3, 9] = [1, 3, 7, 9, 10] \<and>
         insertion_point argsort [10, 1, 7, 3, 9] 6 = 2 \<and>
         find_nearest_index argsort [10, 1, 7, 3, 9] 6 = Inr 2 \<and>
         get_neighbors_index argsort [10, 1, 7, 3, 9] 6 3 = Inr (Slice 1 4)"
proof -
  have "is_argsort [10, 1, 7, 3, 9 :: real] (np_argsort [10, 1, 7, 3, 9 :: real])"
    by (rule np_argsort_is_argsort)
  with assms have same: "argsort [10, 1, 7, 3, 9 :: real] = np_argsort [10, 1, 7, 3, 9 :: real]"
    by (rule argsort_unique) simp
  have "np_argsort [10, 1, 7, 3, 9 :: real] = [1, 3, 2, 4, 0]"
    by code_simp
  with same have p: "argsort [10, 1, 7, 3, 9 :: real] = [1, 3, 2, 4, 0]"
    by simp
  have s: "sorted_values argsort [10, 1, 7, 3, 9 :: real] = [1, 3, 7, 9, 10]"
    by (simp add: sorted_values_def p)
  have "insertion_point np_argsort [10, 1, 7, 3, 9 :: real] 6 = 2"
    by code_simp
  then have k: "insertion_point argsort [10, 1, 7, 3, 9 :: real] 6 = 2"
    by (simp add: insertion_point_def sorted_values_def same)
  have "find_nearest_index np_argsort [10, 1, 7, 3, 9 :: real] 6 = Inr 2"
    by code_simp
  then have f: "find_nearest_index argsort [10, 1, 7, 3, 9 :: real] 6 = Inr 2"
    by (simp add: find_nearest_index_cong [of argsort "[10, 1, 7, 3, 9 :: real]" np_argsort, OF same])
  have "get_neighbors_index np_argsort [10, 1, 7, 3, 9 :: real] 6 3 = Inr (Slice 1 4)"
    by code_simp
  then have g: "get_neighbors_index argsort [10, 1, 7, 3, 9 :: real] 6 3 = Inr (Slice 1 4)"
    by (simp add: get_neighbors_index_cong [of argsort "[10, 1, 7, 3, 9 :: real]" np_argsort, OF same])
  from p s k f g show ?thesis by simp
qed

theorem spec_example_witness:
  "is_argsort [10, 1, 7, 3, 9 :: real] (np_argsort [10, 1, 7, 3, 9 :: real]) \<and>
   find_nearest_index np_argsort [10, 1, 7, 3, 9 :: real] 6 = Inr 2 \<and>
   get_neighbors_index np_argsort [10, 1, 7, 3, 9 :: real] 6 3 = Inr (Slice 1 4)"
proof -
  have a: "is_argsort [10, 1, 7, 3, 9 :: real] (np_argsort [10, 1, 7, 3, 9 :: real])"
    by code_simp
  from spec_example [where argsort = np_argsort, OF a] a show ?thesis
    by simp
qed

text \<open>
  C9. \<^verbatim>\<open>find_nearest_index\<close> is deterministic and leaves its input alone: run twice in
  a row on the same array object and value, the second call on the store the first one
  left, both calls return the same result, which depends on the contents of the array and
  the value only, and after each call every array that existed before, the input among
  them, is what it was.
\<close>

theorem find_nearest_index_deterministic:
  assumes "array < length h" and "h ! array = FloatArray a"
  shows "(case find_nearest_index_heap argsort h array value of (h1, out1) \<Rightarrow>
          case find_nearest_index_heap argsort h1 array value of (h2, out2) \<Rightarrow>
            out1 = out2 \<and> out1 = find_nearest_index argsort a value \<and>
            h1 ! array = FloatArray a \<and> h2 ! array = FloatArray a \<and>
            (\<forall>r<length h. h1 ! r = h ! r \<and> h2 ! r = h ! r))"
proof -
  define new where "new = [IntpArray (argsort a),
          FloatArray (map (\<lambda>i. a ! i) (argsort a)),
          FloatArray (map (\<lambda>i. a ! i) (argsort a))]"
  have first: "find_nearest_index_heap argsort h array value =
      (h @ new, find_nearest_index argsort a value)"
    unfolding new_def using assms by (intro find_nearest_index_heap_eq) simp_all
  have in1: "array < length (h @ new)"
    using assms(1) by simp
  have same: "floats ((h @ new) ! array) = a"
    using assms by (simp add: nth_append)
  have second: "find_nearest_index_heap argsort (h @ new) array value =
      ((h @ new) @ new, find_nearest_index argsort a value)"
    unfolding new_def using in1 same unfolding new_def by (rule find_nearest_index_heap_eq)
  show ?thesis
    using assms by (simp add: first second nth_append)
qed

theorem find_nearest_index_deterministic_witness:
  "(0::nat) < length [FloatArray [10, 1, 7, 3, 9 :: real]] \<and>
   [FloatArray [10, 1, 7, 3, 9 :: real]] ! 0 = FloatArray [10, 1, 7, 3, 9 :: real] \<and>
   (case find_nearest_index_heap np_argsort [FloatArray [10, 1, 7, 3, 9 :: real]] 0 6 of (h1, out1) \<Rightarrow>
    case find_nearest_index_heap np_argsort h1 0 6 of (h2, out2) \<Rightarrow>
      out1 = out2 \<and> h1 ! 0 = FloatArray [10, 1, 7, 3, 9 :: real] \<and> h2 ! 0 = FloatArray [10, 1, 7, 3, 9 :: real])"
proof -
  have r: "(0::nat) < length [FloatArray [10, 1, 7, 3, 9 :: real]]"
    by simp
  have c: "[FloatArray [10, 1, 7, 3, 9 :: real]] ! 0 = FloatArray [10, 1, 7, 3, 9 :: real]"
    by simp
  from find_nearest_index_deterministic [OF r c, of np_argsort 6] show ?thesis
    by (simp add: split_beta)
qed

section \<open>Claims about \<^verbatim>\<open>get_neighbors_index\<close>\<close>

text \<open>
  C3. For a non-empty array and \<open>1 \<le> num_neighbors \<le> len(array)\<close>,
  \<^verbatim>\<open>get_neighbors_index\<close> returns a range \<open>[start, end)\<close> of exactly \<open>num_neighbors\<close>
  positions (\<open>end - start = num_neighbors\<close>) with \<open>0 \<le> start\<close> and \<open>end \<le> len(array)\<close>.
\<close>

theorem get_neighbors_index_window:
  fixes array :: "real list"
  assumes "is_argsort array (argsort array)" and "array \<noteq> []"
    and "1 \<le> num_neighbors" and "num_neighbors \<le> int (length array)"
  shows "\<exists>start stop. get_neighbors_index argsort array central num_neighbors
             = Inr (Slice start stop) \<and>
           stop - start = num_neighbors \<and> 0 \<le> start \<and> stop \<le> int (length array)"
proof -
  from find_nearest_index_closest [where argsort = argsort and array = array, OF assms(1,2), of central]
  obtain idx where idx: "find_nearest_index argsort array central = Inr idx"
    by blast
  define stop where
    "stop = min (int (length array)) (max 0 (int idx - (num_neighbors - 1) div 2) + num_neighbors)"
  have "get_neighbors_index argsort array central num_neighbors
      = Inr (Slice (stop - num_neighbors) stop)"
    unfolding stop_def using idx by (rule get_neighbors_index_eq)
  moreover have "0 \<le> stop - num_neighbors" and "stop \<le> int (length array)"
    using assms(4) by (simp_all add: stop_def)
  ultimately show ?thesis by simp
qed

theorem get_neighbors_index_window_witness:
  "is_argsort [10, 1, 7, 3, 9 :: real] (np_argsort [10, 1, 7, 3, 9 :: real]) \<and> [10, 1, 7, 3, 9 :: real] \<noteq> [] \<and>
   (1::int) \<le> 3 \<and> (3::int) \<le> int (length [10, 1, 7, 3, 9 :: real]) \<and>
   (\<exists>start stop. get_neighbors_index np_argsort [10, 1, 7, 3, 9 :: real] 6 3 = Inr (Slice start stop) \<and>
      stop - start = 3 \<and> 0 \<le> start \<and> stop \<le> int (length [10, 1, 7, 3, 9 :: real]))"
proof -
  have a: "is_argsort [10, 1, 7, 3, 9 :: real] (np_argsort [10, 1, 7, 3, 9 :: real])"
    by code_simp
  have ne: "[10, 1, 7, 3, 9 :: real] \<noteq> []"
    by simp
  have lo: "(1::int) \<le> 3"
    by simp
  have hi: "(3::int) \<le> int (length [10, 1, 7, 3, 9 :: real])"
    by simp
  from get_neighbors_index_window
    [where argsort = np_argsort and array = "[10, 1, 7, 3, 9 :: real]", OF a ne lo hi, of 6]
  show ?thesis
    using a by simp
qed

text \<open>
  C10. For a non-empty array and \<open>1 \<le> num_neighbors \<le> len(array)\<close>, the position
  \<open>idx\<close> that \<^verbatim>\<open>find_nearest_index(array, central)\<close> returns lies in the range
  \<open>[start, end)\<close> that \<^verbatim>\<open>get_neighbors_index(array, central, num_neighbors)\<close> returns:
  \<open>start \<le> idx < end\<close>.
\<close>

theorem get_neighbors_index_contains_nearest:
  fixes array :: "real list"
  assumes "is_argsort array (argsort array)" and "array \<noteq> []"
    and "1 \<le> num_neighbors" and "num_neighbors \<le> int (length array)"
  shows "\<exists>idx start stop. find_nearest_index argsort array central = Inr idx \<and>
           get_neighbors_index argsort array central num_neighbors = Inr (Slice start stop) \<and>
           start \<le> int idx \<and> int idx < stop"
proof -
  from find_nearest_index_closest [where argsort = argsort and array = array, OF assms(1,2), of central]
  obtain idx where idx: "find_nearest_index argsort array central = Inr idx"
    and inside: "idx < length array"
    by blast
  define half where "half = (num_neighbors - 1) div 2"
  define stop where
    "stop = min (int (length array)) (max 0 (int idx - half) + num_neighbors)"
  have res: "get_neighbors_index argsort array central num_neighbors
      = Inr (Slice (stop - num_neighbors) stop)"
    unfolding stop_def half_def using idx by (rule get_neighbors_index_eq)
  have half: "0 \<le> half" "half \<le> num_neighbors - 1"
    using half_window_bounds [OF assms(3)] by (simp_all add: half_def)
  have "stop - num_neighbors \<le> int idx"
    using half by (simp add: stop_def)
  moreover have "int idx < stop"
    using half inside by (simp add: stop_def)
  ultimately show ?thesis
    using idx res by simp
qed

theorem get_neighbors_index_contains_nearest_witness:
  "is_argsort [10, 1, 7, 3, 9 :: real] (np_argsort [10, 1, 7, 3, 9 :: real]) \<and> [10, 1, 7, 3, 9 :: real] \<noteq> [] \<and>
   (1::int) \<le> 3 \<and> (3::int) \<le> int (length [10, 1, 7, 3, 9 :: real]) \<and>
   (\<exists>idx start stop. find_nearest_index np_argsort [10, 1, 7, 3, 9 :: real] 9 = Inr idx \<and>
      get_neighbors_index np_argsort [10, 1, 7, 3, 9 :: real] 9 3 = Inr (Slice start stop) \<and>
      start \<le> int idx \<and> int idx < stop)"
proof -
  have a: "is_argsort [10, 1, 7, 3, 9 :: real] (np_argsort [10, 1, 7, 3, 9 :: real])"
    by code_simp
  have ne: "[10, 1, 7, 3, 9 :: real] \<noteq> []"
    by simp
  have lo: "(1::int) \<le> 3"
    by simp
  have hi: "(3::int) \<le> int (length [10, 1, 7, 3, 9 :: real])"
    by simp
  from get_neighbors_index_contains_nearest
    [where argsort = np_argsort and array = "[10, 1, 7, 3, 9 :: real]", OF a ne lo hi, of 9]
  show ?thesis
    using a by simp
qed

text \<open>
  With \<open>num_neighbors = 2 ^ 70\<close> the subtraction \<^verbatim>\<open>idx - (num_neighbors - 1) // 2\<close> has an
  \<^verbatim>\<open>np.int64\<close> on the left and a Python integer outside \<^verbatim>\<open>int64\<close> on the right: the call
  raises \<^verbatim>\<open>OverflowError\<close> and returns no range.
\<close>

theorem huge_window_overflows:
  "is_argsort [10, 1, 7, 3, 9 :: int] (np_argsort [10, 1, 7, 3, 9 :: int]) \<and>
   find_nearest_index_np int64 np_argsort [10, 1, 7, 3, 9] 6 = Inr 2 \<and>
   get_neighbors_index_np int64 np_argsort [10, 1, 7, 3, 9] 6 (2 ^ 70) = Inl OverflowError"
  by code_simp

text \<open>
  C5, as amended. For a non-empty array of fewer than \<open>2 ^ 62\<close> elements, any central
  value and \<open>- 2 ^ 62 \<le> num_neighbors \<le> 2 ^ 62\<close>, \<^verbatim>\<open>get_neighbors_index\<close> returns exactly
  the range of the reference recipe \<open>window_recipe\<close>, computed from
  \<open>idx = find_nearest_index(array, central)\<close>.
\<close>

theorem get_neighbors_index_np_recipe:
  fixes array :: "'a::linorder list"
  assumes "is_argsort array (argsort array)" and "array \<noteq> []"
    and "int (length array) < 2 ^ 62"
    and "- (2 ^ 62) \<le> num_neighbors" and "num_neighbors \<le> 2 ^ 62"
  shows "\<exists>idx. find_nearest_index_np d argsort array central = Inr idx \<and>
           get_neighbors_index_np d argsort array central num_neighbors
             = Inr (window_recipe (length array) idx num_neighbors)"
proof -
  from find_nearest_index_np_position
    [where argsort = argsort and array = array, OF assms(1,2), of d central]
  obtain idx where idx: "idx < length array"
    "find_nearest_index_np d argsort array central = Inr idx"
    by blast
  with get_neighbors_index_np_eq [OF idx(2,1) assms(3,4,5)] show ?thesis
    by simp
qed

theorem get_neighbors_index_np_recipe_witness:
  "is_argsort [10, 1, 7, 3, 9 :: int] (np_argsort [10, 1, 7, 3, 9 :: int]) \<and>
   [10, 1, 7, 3, 9 :: int] \<noteq> [] \<and> int (length [10, 1, 7, 3, 9 :: int]) < 2 ^ 62 \<and>
   - (2 ^ 62) \<le> (3 :: int) \<and> (3 :: int) \<le> 2 ^ 62 \<and>
   (\<exists>idx. find_nearest_index_np int64 np_argsort [10, 1, 7, 3, 9] 9 = Inr idx \<and>
      get_neighbors_index_np int64 np_argsort [10, 1, 7, 3, 9] 9 3
        = Inr (window_recipe (length [10, 1, 7, 3, 9 :: int]) idx 3))"
proof -
  have a: "is_argsort [10, 1, 7, 3, 9 :: int] (np_argsort [10, 1, 7, 3, 9 :: int])"
    by code_simp
  have ne: "[10, 1, 7, 3, 9 :: int] \<noteq> []"
    by simp
  have len: "int (length [10, 1, 7, 3, 9 :: int]) < 2 ^ 62"
    by simp
  have lo: "- (2 ^ 62) \<le> (3 :: int)"
    by simp
  have hi: "(3 :: int) \<le> 2 ^ 62"
    by simp
  from get_neighbors_index_np_recipe
    [where argsort = np_argsort and array = "[10, 1, 7, 3, 9]", OF a ne len lo hi, of int64 9]
  show ?thesis
    using a by simp
qed

text \<open>
  A window larger than the array, and an empty window, are not rejected: on the array
  \<^verbatim>\<open>[1, 2]\<close> with central value 0, \<open>num_neighbors = 5\<close> gives the range \<open>[-3, 2)\<close> and
  \<open>num_neighbors = 0\<close> gives the range \<open>[1, 1)\<close>.
\<close>

theorem oversized_window_not_rejected:
  "int (length [1, 2 :: int]) < 5 \<and>
   get_neighbors_index_np int64 np_argsort [1, 2] 0 5 = Inr (Slice (- 3) 2) \<and>
   get_neighbors_index_np int64 np_argsort [1, 2] 0 0 = Inr (Slice 1 1)"
  by code_simp

text \<open>
  C2, as amended. \<^verbatim>\<open>get_neighbors_index\<close> validates nothing. For an empty array the
  call raises, with the \<^verbatim>\<open>IndexError\<close> of the subscript \<^verbatim>\<open>idx_sorted[len(array) - 1]\<close> in
  \<^verbatim>\<open>find_nearest_index\<close>, and returns no range. For a non-empty array of fewer than
  \<open>2 ^ 62\<close> elements it returns a range \<open>[start, end)\<close> for every \<open>num_neighbors\<close> from
  \<open>- 2 ^ 62\<close> to \<open>2 ^ 62\<close>, also for \<open>num_neighbors > len(array)\<close> and for
  \<open>num_neighbors \<le> 0\<close>, with \<open>end - start = num_neighbors\<close> and \<open>end \<le> len(array)\<close>.
\<close>

theorem get_neighbors_index_np_unvalidated:
  fixes array :: "'a::linorder list"
  assumes "is_argsort array (argsort array)"
  shows "(array = [] \<longrightarrow>
            get_neighbors_index_np d argsort array central num_neighbors = Inl IndexError) \<and>
         (array \<noteq> [] \<and> int (length array) < 2 ^ 62 \<and>
          - (2 ^ 62) \<le> num_neighbors \<and> num_neighbors \<le> 2 ^ 62 \<longrightarrow>
            (\<exists>start stop. get_neighbors_index_np d argsort array central num_neighbors
                = Inr (Slice start stop) \<and>
              stop - start = num_neighbors \<and> stop \<le> int (length array)))"
proof (intro conjI impI)
  assume "array = []"
  with assms show "get_neighbors_index_np d argsort array central num_neighbors = Inl IndexError"
    by (simp add: get_neighbors_index_np_def err_bind_def find_nearest_index_np_Nil)
next
  assume b: "array \<noteq> [] \<and> int (length array) < 2 ^ 62 \<and>
          - (2 ^ 62) \<le> num_neighbors \<and> num_neighbors \<le> 2 ^ 62"
  from find_nearest_index_np_position
    [where argsort = argsort and array = array, OF assms, of d central] b
  obtain idx where idx: "idx < length array"
    "find_nearest_index_np d argsort array central = Inr idx"
    by blast
  from b have "get_neighbors_index_np d argsort array central num_neighbors
      = Inr (window_recipe (length array) idx num_neighbors)"
    by (intro get_neighbors_index_np_eq [OF idx(2,1)]) simp_all
  then show "\<exists>start stop. get_neighbors_index_np d argsort array central num_neighbors
                = Inr (Slice start stop) \<and>
              stop - start = num_neighbors \<and> stop \<le> int (length array)"
    by (simp add: window_recipe_def)
qed

theorem get_neighbors_index_np_unvalidated_witness:
  "is_argsort ([] :: int list) (np_argsort ([] :: int list)) \<and>
   is_argsort [1, 2 :: int] (np_argsort [1, 2 :: int]) \<and>
   get_neighbors_index_np int64 np_argsort [] 0 5 = Inl IndexError \<and>
   (\<exists>start stop. get_neighbors_index_np int64 np_argsort [1, 2] 0 5 = Inr (Slice start stop) \<and>
      stop - start = 5 \<and> stop \<le> int (length [1, 2 :: int]))"
proof -
  have a0: "is_argsort ([] :: int list) (np_argsort ([] :: int list))"
    by code_simp
  have a2: "is_argsort [1, 2 :: int] (np_argsort [1, 2 :: int])"
    by code_simp
  have "get_neighbors_index_np int64 np_argsort [] 0 5 = Inl IndexError"
    using get_neighbors_index_np_unvalidated
      [where argsort = np_argsort and array = "[]", OF a0, of int64 0 5]
    by simp
  moreover have "\<exists>start stop.
      get_neighbors_index_np int64 np_argsort [1, 2] 0 5 = Inr (Slice start stop) \<and>
      stop - start = 5 \<and> stop \<le> int (length [1, 2 :: int])"
    using get_neighbors_index_np_unvalidated
      [where argsort = np_argsort and array = "[1, 2]", OF a2, of int64 0 5]
    by simp
  ultimately show ?thesis
    using a0 a2 by simp
qed

end
